theory Spec2Isabelle
  imports Complex_Main "HOL-Library.Log_Nat"
begin

section \<open>Python exceptions and double-precision arithmetic\<close>

text \<open>
  The script \<^verbatim>\<open>generate.py\<close> computes two row counts with a floating-point product
  that is cut back to an integer: \<^verbatim>\<open>int(needed * 1.1) + 10\<close> and
  \<^verbatim>\<open>int(len(df) * ratio)\<close>. A finite double is the pair \<open>(m, e)\<close> standing for
  \<open>m * 2 ^ e\<close>; a product is the exact product rounded to 53 significant bits, ties to
  even, as IEEE 754 binary64 does (the lowest exponent of the grid is \<open>-1074\<close>).
  Uncaught exceptions are values of the type \<open>error\<close>.
\<close>

datatype error = OverflowError | ValueError | KeyError

type_synonym dbl = "int \<times> int"

definition rne :: "int \<Rightarrow> nat \<Rightarrow> int" where
  \<comment> \<open>\<open>m / 2 ^ k\<close> rounded to the nearest integer, ties to the even one\<close>
  "rne m k =
     (let q = m div 2 ^ k; r = m mod 2 ^ k
      in if 2 * r < 2 ^ k then q
         else if 2 ^ k < 2 * r then q + 1
         else if even q then q else q + 1)"

definition round_dbl :: "dbl \<Rightarrow> dbl" where
  "round_dbl d =
     (let m = fst d; e = snd d; k = max (bitlen \<bar>m\<bar> - 53) (- 1074 - e)
      in if k \<le> 0 then (m, e) else (rne m (nat k), e + k))"

definition is_huge :: "dbl \<Rightarrow> bool" where
  \<comment> \<open>magnitude at least \<open>2 ^ 1024\<close>, beyond the largest finite double: a
      non-zero \<open>m\<close> with \<open>b\<close> bits has \<open>2 ^ (b - 1) \<le> \<bar>m\<bar> < 2 ^ b\<close>\<close>
  "is_huge d = (1024 < bitlen \<bar>fst d\<bar> + snd d)"

definition py_trunc :: "dbl \<Rightarrow> int" where
  \<comment> \<open>\<^verbatim>\<open>int(x)\<close> on a finite float: truncation towards zero\<close>
  "py_trunc d =
     (let m = fst d; e = snd d
      in if 0 \<le> e then m * 2 ^ nat e
         else if 0 \<le> m then m div 2 ^ nat (- e)
         else - ((- m) div 2 ^ nat (- e)))"

definition int_of_product :: "int \<Rightarrow> dbl \<Rightarrow> error + int" where
  \<comment> \<open>\<^verbatim>\<open>int(n * x)\<close> for a Python int \<open>n\<close> and a float \<open>x\<close>: \<open>n\<close> is converted to a
      float (OverflowError when too large), the product is rounded (an overflow
      gives infinity, on which \<^verbatim>\<open>int\<close> raises OverflowError), then truncated\<close>
  "int_of_product n x =
     (let f = round_dbl (n, 0)
      in if is_huge f then Inl OverflowError
         else let p = round_dbl (fst f * fst x, snd f + snd x)
              in if is_huge p then Inl OverflowError else Inr (py_trunc p))"

definition dbl_1_1 :: dbl where
  \<comment> \<open>the double nearest to 1.1, \<^verbatim>\<open>0x1.199999999999ap+0\<close>\<close>
  "dbl_1_1 = (4953959590107546, - 52)"

definition dbl_0_05 :: dbl where
  \<comment> \<open>the double nearest to 0.05, \<^verbatim>\<open>0x1.999999999999ap-5\<close>\<close>
  "dbl_0_05 = (7205759403792794, - 57)"

definition batch_size :: "int \<Rightarrow> error + int" where
  \<comment> \<open>\<^verbatim>\<open>batch_size = int(needed * 1.1) + 10\<close>\<close>
  "batch_size needed =
     (case int_of_product needed dbl_1_1 of
        Inl e \<Rightarrow> Inl e
      | Inr k \<Rightarrow> Inr (k + 10))"

section \<open>Tables\<close>

text \<open>
  A cell is \<open>None\<close> for the null value (\<^verbatim>\<open>None\<close>, \<^verbatim>\<open>NaN\<close>) and \<open>Some v\<close> for a
  scalar; \<^verbatim>\<open>merge\<close> and \<^verbatim>\<open>drop_duplicates\<close> compare cells by value and take two
  nulls as equal, which is equality of \<open>'v option\<close>. A row is the list of its cells in
  column order. Every batch drawn from the model has the model's columns and the
  default index \<open>0, 1, ...\<close>, so a batch is the list of its rows and the label of a row
  is its position. The original dataset brings its own columns.
\<close>

type_synonym 'v cell = "'v option"

type_synonym 'v row = "'v cell list"

record 'v frame =
  columns :: "string list"
  rows :: "'v row list"

fun cell_of :: "string list \<Rightarrow> 'v row \<Rightarrow> string \<Rightarrow> 'v cell" where
  \<comment> \<open>the value of column \<open>c\<close> in a row laid out by the column list\<close>
  "cell_of (cn # cs) (x # xs) c = (if cn = c then x else cell_of cs xs c)"
| "cell_of _ _ _ = None"

fun set_cells :: "string list \<Rightarrow> string \<Rightarrow> 'v cell \<Rightarrow> 'v row \<Rightarrow> 'v row" where
  \<comment> \<open>\<^verbatim>\<open>row[c] = v\<close>\<close>
  "set_cells (cn # cs) c v (x # xs) = (if cn = c then v else x) # set_cells cs c v xs"
| "set_cells _ _ _ xs = xs"

definition key_of :: "string list \<Rightarrow> string list \<Rightarrow> 'v row \<Rightarrow> 'v cell list" where
  \<comment> \<open>the projection \<^verbatim>\<open>df[common_cols]\<close> of one row\<close>
  "key_of cols common r = map (cell_of cols r) common"

subsection \<open>The accumulator: \<^verbatim>\<open>pd.concat\<close> then \<^verbatim>\<open>drop_duplicates\<close>\<close>

fun drop_dups_from :: "'a list \<Rightarrow> 'a list \<Rightarrow> 'a list" where
  \<comment> \<open>keeps an element unless it was seen before\<close>
  "drop_dups_from seen [] = []"
| "drop_dups_from seen (x # xs) =
     (if x \<in> set seen then drop_dups_from seen xs
      else x # drop_dups_from (x # seen) xs)"

definition drop_duplicates :: "'a list \<Rightarrow> 'a list" where
  \<comment> \<open>\<^verbatim>\<open>df.drop_duplicates()\<close>: all columns, \<^verbatim>\<open>keep='first'\<close>\<close>
  "drop_duplicates xs = drop_dups_from [] xs"

definition accumulate :: "'a list \<Rightarrow> 'a list \<Rightarrow> 'a list" where
  \<comment> \<open>\<^verbatim>\<open>pd.concat([generated_data, samples], ignore_index=True).drop_duplicates()\<close>\<close>
  "accumulate acc batch = drop_duplicates (acc @ batch)"

subsection \<open>The leakage filter\<close>

text \<open>
  \<^verbatim>\<open>samples_to_check.merge(original_df, on=common_cols, how='left', indicator=True)\<close>
  walks the batch in order and gives, for a row with no original row of the same key,
  one row marked \<^verbatim>\<open>left_only\<close>, and otherwise one row marked \<^verbatim>\<open>both\<close> for each
  original row of that key. The merged frame has a fresh index \<open>0, 1, ...\<close>; only the
  marks are kept here, \<open>True\<close> for \<^verbatim>\<open>both\<close>.
\<close>

definition merge_marks :: "'k list \<Rightarrow> 'k list \<Rightarrow> bool list" where
  "merge_marks skeys okeys =
     concat (map (\<lambda>k. let m = length (filter (\<lambda>k'. k' = k) okeys)
                       in if m = 0 then [False] else replicate m True) skeys)"

definition leaked_indices :: "bool list \<Rightarrow> nat list" where
  \<comment> \<open>\<^verbatim>\<open>merged[merged['_merge'] == 'both'].index\<close>\<close>
  "leaked_indices marks = filter (\<lambda>i. marks ! i) [0..<length marks]"

definition drop_labels :: "'a list \<Rightarrow> nat list \<Rightarrow> error + 'a list" where
  \<comment> \<open>\<^verbatim>\<open>samples.drop(labels)\<close>: KeyError when a label is not in the index\<close>
  "drop_labels xs labels =
     (if \<exists>i \<in> set labels. length xs \<le> i then Inl KeyError
      else Inr (map snd (filter (\<lambda>p. fst p \<notin> set labels) (zip [0..<length xs] xs))))"

datatype log_event =
    Info_Pass nat int
  | Error_Sampling_Failed
  | Warning_Parse_Failed
  | Warning_Leaked nat
  | Info_No_Leakage
  | Info_Final nat
  | Warning_Shortfall int
  | Error_Load_Failed
  | Error_Save_Failed

definition common_cols :: "string list \<Rightarrow> string list \<Rightarrow> string list" where
  \<comment> \<open>\<^verbatim>\<open>[c for c in cols if c in samples.columns]\<close>\<close>
  "common_cols cols scols = filter (\<lambda>c. c \<in> set scols) cols"

definition frame_empty :: "'v frame \<Rightarrow> bool" where
  \<comment> \<open>\<^verbatim>\<open>df.empty\<close>: no rows or no columns\<close>
  "frame_empty df = (rows df = [] \<or> columns df = [])"

definition leakage_filter ::
  "'v frame option \<Rightarrow> string list \<Rightarrow> 'v row list \<Rightarrow> error + ('v row list \<times> log_event list)" where
  \<comment> \<open>lines 81 to 95 of \<^verbatim>\<open>generate\<close>; the second argument is \<^verbatim>\<open>samples.columns\<close>\<close>
  "leakage_filter original_df scols samples =
     (case original_df of
        None \<Rightarrow> Inr (samples, [])
      | Some odf \<Rightarrow>
          if frame_empty odf then Inr (samples, [])
          else
            let common = common_cols (columns odf) scols
            in if common = [] then Inr (samples, [])
               else
                 let merged = merge_marks (map (key_of scols common) samples)
                                (map (key_of (columns odf) common) (rows odf));
                     leaked = leaked_indices merged
                 in if leaked = [] then Inr (samples, [Info_No_Leakage])
                    else (case drop_labels samples leaked of
                            Inl e \<Rightarrow> Inl e
                          | Inr kept \<Rightarrow> Inr (kept, [Warning_Leaked (length leaked)])))"

subsection \<open>The anomaly injector\<close>

text \<open>
  A rule is one object of the parsed configuration, read with \<^verbatim>\<open>anomaly.get\<close>: a field
  that is absent reads as \<^verbatim>\<open>None\<close>, the ratio as \<open>0.05\<close>. The ratio is a JSON number,
  an integer or a float. \<^verbatim>\<open>df.sample(n=count).index\<close> draws \<open>count\<close> distinct row
  labels at random; the draw is a parameter \<open>draw k n count\<close>, where \<open>k\<close> counts the
  draws made so far, and \<^verbatim>\<open>sample\<close> raises ValueError for a negative count and for a
  count above the number of rows.
\<close>

datatype ratio = Ratio_Int int | Ratio_Float dbl

record 'v anomaly =
  a_column :: "string option"
  a_type :: "string option"
  a_value :: "'v cell"
  a_ratio :: "ratio option"

definition sample_count :: "nat \<Rightarrow> ratio option \<Rightarrow> error + int" where
  \<comment> \<open>\<^verbatim>\<open>count = int(len(df) * ratio)\<close>\<close>
  "sample_count n r =
     (case r of
        None \<Rightarrow> int_of_product (int n) dbl_0_05
      | Some (Ratio_Int k) \<Rightarrow> Inr (int n * k)
      | Some (Ratio_Float d) \<Rightarrow> int_of_product (int n) d)"

definition set_at :: "string list \<Rightarrow> string \<Rightarrow> 'v cell \<Rightarrow> nat list \<Rightarrow> 'v row list \<Rightarrow> 'v row list" where
  \<comment> \<open>\<^verbatim>\<open>df.loc[indices, col] = value\<close>\<close>
  "set_at cols c v idx samples =
     map (\<lambda>p. if fst p \<in> set idx then set_cells cols c v (snd p) else snd p)
       (zip [0..<length samples] samples)"

definition apply_anomaly ::
  "(nat \<Rightarrow> nat \<Rightarrow> nat \<Rightarrow> nat list) \<Rightarrow> string list \<Rightarrow> 'v row list \<times> nat \<Rightarrow> 'v anomaly
     \<Rightarrow> error + ('v row list \<times> nat)" where
  \<comment> \<open>the body of the loop of \<^verbatim>\<open>apply_anomalies\<close>\<close>
  "apply_anomaly draw cols st a =
     (let df = fst st; k = snd st
      in case a_column a of
           None \<Rightarrow> Inr (df, k)
         | Some col \<Rightarrow>
             if col \<in> set cols then
               (case sample_count (length df) (a_ratio a) of
                  Inl e \<Rightarrow> Inl e
                | Inr count \<Rightarrow>
                    if count < 0 \<or> int (length df) < count then Inl ValueError
                    else
                      let indices = draw k (length df) (nat count)
                      in if a_type a = Some ''fixed''
                         then Inr (set_at cols col (a_value a) indices df, Suc k)
                         else if a_type a = Some ''null''
                         then Inr (set_at cols col None indices df, Suc k)
                         else Inr (df, Suc k))
             else Inr (df, k))"

fun apply_anomalies ::
  "(nat \<Rightarrow> nat \<Rightarrow> nat \<Rightarrow> nat list) \<Rightarrow> string list \<Rightarrow> 'v row list \<times> nat \<Rightarrow> 'v anomaly list
     \<Rightarrow> error + ('v row list \<times> nat)" where
  "apply_anomalies draw cols st [] = Inr st"
| "apply_anomalies draw cols st (a # as) =
     (case apply_anomaly draw cols st a of
        Inl e \<Rightarrow> Inl e
      | Inr st' \<Rightarrow> apply_anomalies draw cols st' as)"

definition load_anomalies ::
  "(string \<Rightarrow> 'v anomaly list option) \<Rightarrow> string option
     \<Rightarrow> 'v anomaly list option \<times> log_event list" where
  \<comment> \<open>\<^verbatim>\<open>json.loads\<close> is a parameter: \<open>None\<close> when it raises\<close>
  "load_anomalies loads anomaly_json =
     (case anomaly_json of
        None \<Rightarrow> (None, [])
      | Some s \<Rightarrow>
          if s = [] then (None, [])
          else (case loads s of
                  None \<Rightarrow> (None, [Warning_Parse_Failed])
                | Some a \<Rightarrow> (Some a, [])))"

subsection \<open>The generation loop\<close>

text \<open>
  What \<^verbatim>\<open>generate\<close> takes from outside is gathered in one record: whether the model
  loads, the columns of its batches, \<^verbatim>\<open>model.sample\<close> (by the number of the call and
  the requested size; \<open>None\<close> when it raises), \<^verbatim>\<open>json.loads\<close>, the random draws
  and whether \<^verbatim>\<open>to_csv\<close> succeeds. The original dataset is passed as loaded, \<open>None\<close>
  when no path is given or the file does not exist.
\<close>

record 'v env =
  model_loads :: bool
  model_columns :: "string list"
  model_sample :: "nat \<Rightarrow> int \<Rightarrow> 'v row list option"
  json_loads :: "string \<Rightarrow> 'v anomaly list option"
  draw :: "nat \<Rightarrow> nat \<Rightarrow> nat \<Rightarrow> nat list"
  to_csv :: "'v row list \<Rightarrow> bool"

record 'v gstate =
  generated_data :: "'v row list"
  attempts :: nat
  draws :: nat
  logged :: "log_event list"
  requests :: "int list"

definition max_attempts :: nat where
  "max_attempts = 10"

definition gen_pass ::
  "'v env \<Rightarrow> int \<Rightarrow> 'v frame option \<Rightarrow> string option \<Rightarrow> 'v gstate
     \<Rightarrow> error + (bool \<times> 'v gstate)" where
  \<comment> \<open>one pass of the \<^verbatim>\<open>while\<close> loop; the flag is \<open>True\<close> when the pass ends in
      \<^verbatim>\<open>break\<close>\<close>
  "gen_pass env count original_df anomaly_json st =
     (let attempts' = Suc (attempts st);
          needed = count - int (length (generated_data st))
      in case batch_size needed of
           Inl e \<Rightarrow> Inl e
         | Inr bs \<Rightarrow>
             let st1 = st\<lparr>attempts := attempts',
                          logged := logged st @ [Info_Pass attempts' bs],
                          requests := requests st @ [bs]\<rparr>
             in case model_sample env (attempts st) bs of
                  None \<Rightarrow> Inr (True, st1\<lparr>logged := logged st1 @ [Error_Sampling_Failed]\<rparr>)
                | Some samples \<Rightarrow>
                    let la = load_anomalies (json_loads env) anomaly_json;
                        injected =
                          (case fst la of
                             None \<Rightarrow> Inr (samples, draws st)
                           | Some [] \<Rightarrow> Inr (samples, draws st)
                           | Some (a # as) \<Rightarrow>
                               apply_anomalies (draw env) (model_columns env)
                                 (samples, draws st) (a # as))
                    in case injected of
                         Inl e \<Rightarrow> Inl e
                       | Inr anom \<Rightarrow>
                           (case leakage_filter original_df (model_columns env) (fst anom) of
                              Inl e \<Rightarrow> Inl e
                            | Inr flt \<Rightarrow>
                                Inr (False,
                                  st1\<lparr>generated_data :=
                                         accumulate (generated_data st) (fst flt),
                                       draws := snd anom,
                                       logged := logged st1 @ snd la @ snd flt\<rparr>)))"

lemma gen_pass_attempts:
  "gen_pass env count original_df anomaly_json st = Inr (b, st') \<Longrightarrow>
     attempts st' = Suc (attempts st)"
  by (auto simp: gen_pass_def Let_def split: sum.splits option.splits list.splits)

function gen_loop ::
  "'v env \<Rightarrow> int \<Rightarrow> 'v frame option \<Rightarrow> string option \<Rightarrow> 'v gstate \<Rightarrow> error + 'v gstate" where
  "gen_loop env count original_df anomaly_json st =
     (if int (length (generated_data st)) < count \<and> attempts st < max_attempts then
        (case gen_pass env count original_df anomaly_json st of
           Inl e \<Rightarrow> Inl e
         | Inr r \<Rightarrow>
             if fst r then Inr (snd r)
             else gen_loop env count original_df anomaly_json (snd r))
      else Inr st)"
  by pat_completeness auto
termination
proof (relation "measure (\<lambda>(env, count, original_df, anomaly_json, st). max_attempts - attempts st)")
  show "wf (measure (\<lambda>(env, count, original_df, anomaly_json, st). max_attempts - attempts st))"
    by simp
next
  fix env :: "'v env" and count original_df anomaly_json and st :: "'v gstate" and r
  assume c: "int (length (generated_data st)) < count \<and> attempts st < max_attempts"
    and p: "gen_pass env count original_df anomaly_json st = Inr r"
  from p have "attempts (snd r) = Suc (attempts st)"
    using gen_pass_attempts [of env count original_df anomaly_json st "fst r" "snd r"] by simp
  with c show "((env, count, original_df, anomaly_json, snd r), env, count, original_df, anomaly_json, st)
      \<in> measure (\<lambda>(env, count, original_df, anomaly_json, st). max_attempts - attempts st)"
    by auto
qed

declare gen_loop.simps [simp del]

datatype 'v outcome = Saved "'v row list" | Sys_Exit nat | Uncaught error

record 'v result =
  outcome :: "'v outcome"
  final_log :: "log_event list"
  sample_calls :: "int list"

definition py_head :: "int \<Rightarrow> 'a list \<Rightarrow> 'a list" where
  \<comment> \<open>\<^verbatim>\<open>df.head(n)\<close>: the first \<open>n\<close> rows, all but the last \<open>-n\<close> for a negative \<open>n\<close>\<close>
  "py_head n xs = (if 0 \<le> n then take (nat n) xs else take (nat (int (length xs) + n)) xs)"

definition init_state :: "'v gstate" where
  "init_state = \<lparr>generated_data = [], attempts = 0, draws = 0, logged = [], requests = []\<rparr>"

definition trim :: "int \<Rightarrow> 'v row list \<Rightarrow> 'v row list" where
  \<comment> \<open>lines 102 and 103\<close>
  "trim count gd = (if count < int (length gd) then py_head count gd else gd)"

definition generate ::
  "'v env \<Rightarrow> int \<Rightarrow> 'v frame option \<Rightarrow> string option \<Rightarrow> 'v result" where
  "generate env count original_df anomaly_json =
     (if \<not> model_loads env
      then \<lparr>outcome = Sys_Exit 1, final_log = [Error_Load_Failed], sample_calls = []\<rparr>
      else
        (case gen_loop env count original_df anomaly_json init_state of
           Inl e \<Rightarrow> \<lparr>outcome = Uncaught e, final_log = [], sample_calls = []\<rparr>
         | Inr st \<Rightarrow>
             let gd = trim count (generated_data st);
                 lg = logged st @ [Info_Final (length gd)]
                        @ (if int (length gd) < count then [Warning_Shortfall count] else [])
             in if to_csv env gd
                then \<lparr>outcome = Saved gd, final_log = lg, sample_calls = requests st\<rparr>
                else \<lparr>outcome = Sys_Exit 1, final_log = lg @ [Error_Save_Failed],
                       sample_calls = requests st\<rparr>))"

section \<open>Example data and environments\<close>

text \<open>
  Concrete inputs on which the theorems below are evaluated: rows over the two columns
  \<open>x\<close> and \<open>y\<close>, three environments whose model answers every request (with distinct
  rows, with the same row repeated, and with one good batch followed by a failure), and
  a draw that picks the first \<open>count\<close> labels.
\<close>

definition xy :: "string list" where
  "xy = [''x'', ''y'']"

definition row_a :: "nat row" where
  "row_a = [Some 1, Some 1]"

definition row_b :: "nat row" where
  "row_b = [Some 2, Some 2]"

definition row_c :: "nat row" where
  "row_c = [Some 3, Some 3]"

definition row_d :: "nat \<Rightarrow> nat row" where
  "row_d i = [Some 4, Some i]"

definition first_labels :: "nat \<Rightarrow> nat \<Rightarrow> nat \<Rightarrow> nat list" where
  "first_labels k n count = [0..<count]"

definition env_distinct :: "nat env" where
  \<comment> \<open>every batch: the rows a, c, b, then distinct fillers up to the requested size\<close>
  "env_distinct =
     \<lparr>model_loads = True, model_columns = xy,
      model_sample = (\<lambda>k n. Some ([row_a, row_c, row_b] @ map row_d [0..<nat n - 3])),
      json_loads = (\<lambda>s. None), draw = first_labels, to_csv = (\<lambda>df. True)\<rparr>"

definition env_same :: "nat env" where
  \<comment> \<open>every batch: the row a, as often as requested\<close>
  "env_same =
     \<lparr>model_loads = True, model_columns = xy,
      model_sample = (\<lambda>k n. Some (replicate (nat n) row_a)),
      json_loads = (\<lambda>s. None), draw = first_labels, to_csv = (\<lambda>df. True)\<rparr>"

definition env_failing :: "nat env" where
  \<comment> \<open>the first call gives the row a as often as requested, every later call raises\<close>
  "env_failing =
     \<lparr>model_loads = True, model_columns = xy,
      model_sample = (\<lambda>k n. if k = 0 then Some (replicate (nat n) row_a) else None),
      json_loads = (\<lambda>s. None), draw = first_labels, to_csv = (\<lambda>df. True)\<rparr>"

definition original_aab :: "nat frame" where
  \<comment> \<open>an original dataset in which the row a occurs twice\<close>
  "original_aab = \<lparr>columns = xy, rows = [row_a, row_a, row_b]\<rparr>"



section \<open>The invariant of the generation loop\<close>

text \<open>
  Between passes, every attempt made has issued one request to the Row Source, the
  attempts stay within the budget, and the accumulated rows are free of duplicates.
\<close>

definition loop_inv :: "'v gstate \<Rightarrow> bool" where
  "loop_inv st = (length (requests st) = attempts st \<and> attempts st \<le> max_attempts
     \<and> distinct (generated_data st))"

definition quiet :: "'v gstate \<Rightarrow> 'v gstate" where
  \<comment> \<open>the state with the warnings about the anomaly configuration taken out of the log\<close>
  "quiet st = st\<lparr>logged := filter (\<lambda>e. e \<noteq> Warning_Parse_Failed) (logged st)\<rparr>"

definition leaks :: "'v frame \<Rightarrow> string list \<Rightarrow> 'v row \<Rightarrow> bool" where
  \<comment> \<open>a candidate row with the columns \<open>scols\<close> leaks: the two column sets meet and some
      original row agrees with the candidate on every common column\<close>
  "leaks odf scols r =
     (let common = common_cols (columns odf) scols
      in common \<noteq> [] \<and> (\<exists>orig \<in> set (rows odf).
           key_of (columns odf) common orig = key_of scols common r))"

section \<open>The accumulator removes duplicates across the whole accumulated set\<close>


lemma dd_set: "set (drop_dups_from seen xs) = set xs - set seen"
  by (induction xs arbitrary: seen) auto

lemma dd_distinct: "distinct (drop_dups_from seen xs)"
  by (induction xs arbitrary: seen) (auto simp: dd_set)








lemma accumulate_distinct: "distinct (accumulate acc batch)"
  by (simp add: accumulate_def drop_duplicates_def dd_distinct)

lemma accumulate_set: "set (accumulate acc batch) = set acc \<union> set batch"
  by (simp add: accumulate_def drop_duplicates_def dd_set)






section \<open>Passes and exits of the generation loop\<close>

lemma gen_pass_cases:
  assumes "gen_pass env count original_df anomaly_json st = Inr (b, st')"
  shows "attempts st' = Suc (attempts st)
    \<and> length (requests st') = Suc (length (requests st))
    \<and> (if b then generated_data st' = generated_data st
               \<and> (\<exists>bs. logged st' = logged st @ [Info_Pass (Suc (attempts st)) bs, Error_Sampling_Failed])
         else distinct (generated_data st')
               \<and> set (generated_data st) \<subseteq> set (generated_data st'))"
  using assms
  by (auto simp: gen_pass_def Let_def accumulate_distinct accumulate_set
      split: sum.splits option.splits list.splits)

lemma gen_loop_stop:
  "\<not> (int (length (generated_data st)) < count \<and> attempts st < max_attempts) \<Longrightarrow>
     gen_loop env count original_df anomaly_json st = Inr st"
  by (subst gen_loop.simps) auto

lemma gen_loop_step:
  "int (length (generated_data st)) < count \<and> attempts st < max_attempts \<Longrightarrow>
     gen_loop env count original_df anomaly_json st =
       (case gen_pass env count original_df anomaly_json st of
          Inl e \<Rightarrow> Inl e
        | Inr r \<Rightarrow>
            if fst r then Inr (snd r)
            else gen_loop env count original_df anomaly_json (snd r))"
  by (subst gen_loop.simps) auto

lemma gen_loop_exit:
  "gen_loop env count original_df anomaly_json st = Inr st' \<Longrightarrow> loop_inv st \<Longrightarrow>
     loop_inv st'
     \<and> (count \<le> int (length (generated_data st')) \<or> attempts st' = max_attempts
          \<or> Error_Sampling_Failed \<in> set (logged st'))"
proof (induction env count original_df anomaly_json st rule: gen_loop.induct)
  case (1 env count original_df anomaly_json st)
  show ?case
  proof (cases "int (length (generated_data st)) < count \<and> attempts st < max_attempts")
    case False
    then have "gen_loop env count original_df anomaly_json st = Inr st" by (rule gen_loop_stop)
    then have "st' = st" using "1.prems"(1) by simp
    then show ?thesis using False "1.prems"(2) by (auto simp: loop_inv_def)
  next
    case True
    then obtain r where r: "gen_pass env count original_df anomaly_json st = Inr r"
      using "1.prems"(1) by (cases "gen_pass env count original_df anomaly_json st")
        (simp_all add: gen_loop_step)
    then have p: "gen_pass env count original_df anomaly_json st = Inr (fst r, snd r)" by simp
    note c = gen_pass_cases [OF p]
    have inv: "loop_inv (snd r)" using c True "1.prems"(2)
      by (auto simp: loop_inv_def split: if_splits)
    show ?thesis
    proof (cases "fst r")
      case brk: True
      then have "st' = snd r" using "1.prems"(1) True r by (simp add: gen_loop_step)
      then show ?thesis using inv c brk by auto
    next
      case nobrk: False
      then have "gen_loop env count original_df anomaly_json (snd r) = Inr st'"
        using "1.prems"(1) True r by (simp add: gen_loop_step)
      then show ?thesis using "1.IH" [OF True r nobrk _ inv] by simp
    qed
  qed
qed

lemma loop_inv_init: "loop_inv init_state"
  by (simp add: loop_inv_def init_state_def)

lemma generate_after_loop:
  assumes "model_loads env"
    and "gen_loop env count original_df anomaly_json init_state = Inr st"
  shows "generate env count original_df anomaly_json =
     (let gd = trim count (generated_data st);
          lg = logged st @ [Info_Final (length gd)]
                 @ (if int (length gd) < count then [Warning_Shortfall count] else [])
      in if to_csv env gd
         then \<lparr>outcome = Saved gd, final_log = lg, sample_calls = requests st\<rparr>
         else \<lparr>outcome = Sys_Exit 1, final_log = lg @ [Error_Save_Failed],
                sample_calls = requests st\<rparr>)"
  using assms by (simp add: generate_def)

section \<open>The size of the request to the Row Source\<close>

text \<open>
  For a positive \<open>needed\<close> below \<open>2 ^ 48\<close> the double product \<^verbatim>\<open>needed * 1.1\<close>,
  rounded and then truncated, is the integer part of \<open>11 * needed / 10\<close>: the double
  \<open>1.1\<close> is \<open>(11 * 2 ^ 52 + 4) / (10 * 2 ^ 52)\<close>, and neither its excess nor the
  rounding of the product reaches the next integer.
\<close>

lemma bitlen_le_if_less: "0 < x \<Longrightarrow> x < 2 ^ n \<Longrightarrow> bitlen x \<le> int n"
proof -
  assume x: "0 < x" and b: "x < 2 ^ n"
  from bitlen_bounds [OF x] have "(2::int) ^ nat (bitlen x - 1) \<le> x" by simp
  from this b have "(2::int) ^ nat (bitlen x - 1) < 2 ^ n" by (rule le_less_trans)
  then have "nat (bitlen x - 1) < n" by (rule power_less_imp_less_exp [rotated]) simp
  then show ?thesis by simp
qed

lemma bitlen_gt_if_ge: "(2::int) ^ n \<le> x \<Longrightarrow> int n < bitlen x"
proof -
  assume b: "(2::int) ^ n \<le> x"
  have "(0::int) < 2 ^ n" by simp
  from this b have x: "0 < x" by (rule less_le_trans)
  from bitlen_bounds [OF x] have "x < 2 ^ nat (bitlen x)" by simp
  from b this have "(2::int) ^ n < 2 ^ nat (bitlen x)" by (rule le_less_trans)
  then have "n < nat (bitlen x)" by (rule power_less_imp_less_exp [rotated]) simp
  then show ?thesis by simp
qed

lemma rne_bounds:
  "m div 2 ^ k \<le> rne m k \<and> rne m k \<le> m div 2 ^ k + 1
   \<and> (rne m k = m div 2 ^ k + 1 \<longrightarrow> 2 ^ k \<le> 2 * (m mod 2 ^ k))"
  by (auto simp: rne_def Let_def)


lemma rne_zero: "rne m 0 = m"
  by (simp add: rne_def)

lemma round_1_1:
  fixes n :: int
  assumes n0: "0 < n" and nb: "n < 2 ^ 48"
  shows "\<exists>k. k \<le> 48 \<and> bitlen (n * 4953959590107546) - 53 = int k
           \<and> 0 < rne (n * 4953959590107546) k
           \<and> rne (n * 4953959590107546) k < 2 ^ 54
           \<and> rne (n * 4953959590107546) k div 2 ^ (52 - k) = n * 11 div 10"
proof -
  define m where "m = n * 4953959590107546"
  define P :: int where "P = 4503599627370496"
  have P: "P = 2 ^ 52" by (simp add: P_def)
  have mlo: "2 ^ 52 \<le> m" using n0 by (simp add: m_def)
  have mhi: "m < 2 ^ 101" using n0 nb by (simp add: m_def)
  have m0: "0 < m" using n0 by (simp add: m_def)
  have b1: "52 < bitlen m" using bitlen_gt_if_ge [OF mlo] by simp
  have b2: "bitlen m \<le> 101" using bitlen_le_if_less [OF m0 mhi] by simp
  define k where "k = nat (bitlen m - 53)"
  have k48: "k \<le> 48" and kb: "bitlen m - 53 = int k" using b1 b2 by (simp_all add: k_def)
  define K :: int where "K = 2 ^ k"
  define L :: int where "L = 2 ^ (52 - k)"
  have K0: "0 < K" and L0: "0 < L" by (simp_all add: K_def L_def)
  have KL: "L * K = P" using k48 by (simp add: K_def L_def P power_add [symmetric])
  have "(2::int) ^ k \<le> 2 ^ 48" using k48 by (intro power_increasing) simp_all
  then have K48: "K \<le> 281474976710656" by (simp add: K_def)
  define d where "d = m div K"
  define r where "r = m mod K"
  define dK where "dK = d * K"
  have mdr: "m = dK + r" by (simp add: d_def r_def dK_def)
  have r0: "0 \<le> r" and rK: "r < K" using K0 by (simp_all add: r_def)
  define q where "q = n * 11 div 10"
  define t where "t = n * 11 mod 10"
  have nq: "n * 11 = 10 * q + t" by (simp add: q_def t_def)
  have t0: "0 \<le> t" and t10: "t < 10" by (simp_all add: t_def)
  have key: "10 * m = (10 * q + t) * P + 4 * n"
    unfolding nq [symmetric] by (simp add: m_def P_def)
  define R where "R = rne m k"
  have Rd: "d \<le> R" and Rcase: "R = d \<or> (R = d + 1 \<and> K \<le> 2 * r)"
    using rne_bounds [of m k] by (auto simp: R_def d_def r_def K_def)
  have qPm: "q * P \<le> m" using key t0 n0 by (simp add: P_def)
  have "(q * L * K) div K \<le> m div K"
    using qPm K0 KL by (intro zdiv_mono1) (simp_all add: mult.assoc)
  then have qLd: "q * L \<le> d" using K0 by (simp add: d_def)
  have lower: "q * L \<le> R" using qLd Rd by simp
  have upper: "R < (q + 1) * L"
  proof (rule ccontr)
    assume "\<not> R < (q + 1) * L"
    then have "(q + 1) * L \<le> R" by simp
    then have "(q + 1) * L * K \<le> R * K" using K0 by (intro mult_right_mono) simp_all
    then have c: "(q + 1) * P \<le> R * K" using KL by (simp add: mult.assoc)
    from Rcase show False
    proof
      assume "R = d"
      then have "R * K = dK" by (simp add: dK_def)
      with c mdr r0 key t10 nb show False by (simp add: P_def)
    next
      assume a: "R = d + 1 \<and> K \<le> 2 * r"
      then have "R * K = dK + K" by (simp add: dK_def algebra_simps)
      with c mdr a key t10 nb K48 show False by (simp add: P_def)
    qed
  qed
  have Rq: "R div L = q"
    using lower upper L0 by (intro int_div_pos_eq [of R L q "R - L * q"]) (simp_all add: algebra_simps)
  have "0 < q * L"
  proof -
    have "0 < q" using n0 by (simp add: q_def)
    then show ?thesis using L0 by simp
  qed
  then have R0: "0 < R" using lower by simp
  have "m < 2 ^ nat (bitlen m)" using bitlen_bounds [OF m0] by simp
  moreover have "nat (bitlen m) = 53 + k" using b1 by (simp add: k_def)
  ultimately have "m < 2 ^ 53 * K" by (simp add: K_def power_add)
  then have "d * K < 2 ^ 53 * K" using mdr r0 by (simp add: dK_def)
  then have "d < 2 ^ 53" using K0 by (simp only: mult_less_cancel_right_pos)
  then have Rhi: "R < 2 ^ 54" using Rcase by auto
  show ?thesis
    using k48 kb R0 Rhi Rq unfolding R_def m_def q_def L_def by blast
qed


lemma round_small_int:
  assumes "0 < n" and "n < 2 ^ 48"
  shows "round_dbl (n, 0) = (n, 0)" and "\<not> is_huge (n, 0)"
proof -
  have "bitlen n \<le> 48" using bitlen_le_if_less [OF assms] by simp
  then show "round_dbl (n, 0) = (n, 0)" and "\<not> is_huge (n, 0)"
    using assms(1) by (simp_all add: round_dbl_def is_huge_def Let_def)
qed

lemma int_of_product_1_1:
  assumes n0: "0 < n" and nb: "n < 2 ^ 48"
  shows "int_of_product n dbl_1_1 = Inr (n * 11 div 10)"
proof -
  let ?m = "n * 4953959590107546"
  from round_1_1 [OF n0 nb] obtain k where k48: "k \<le> 48"
    and kb: "bitlen ?m - 53 = int k" and R0: "0 < rne ?m k" and Rhi: "rne ?m k < 2 ^ 54"
    and Rq: "rne ?m k div 2 ^ (52 - k) = n * 11 div 10"
    by blast
  have m0: "0 < ?m" using n0 by simp
  have rd: "round_dbl (?m, - 52) = (rne ?m k, int k - 52)"
  proof (cases "k = 0")
    case True
    then show ?thesis using kb m0 by (simp add: round_dbl_def Let_def rne_zero)
  next
    case False
    then have "max (bitlen \<bar>?m\<bar> - 53) (- 1074 - (- 52)) = int k" using kb m0 by simp
    then show ?thesis using False
      by (simp add: round_dbl_def Let_def del: max.absorb1 max.absorb2 max.absorb3 max.absorb4)
  qed
  have "bitlen (rne ?m k) \<le> 54" using bitlen_le_if_less [OF R0 Rhi] by simp
  then have nh: "\<not> is_huge (rne ?m k, int k - 52)"
    using R0 k48 by (simp add: is_huge_def)
  have "nat (52 - int k) = 52 - k" using k48 by simp
  then have tr: "py_trunc (rne ?m k, int k - 52) = rne ?m k div 2 ^ (52 - k)"
    using R0 k48 by (simp add: py_trunc_def Let_def)
  show ?thesis
    using round_small_int [OF n0 nb] rd nh tr Rq
    by (simp add: int_of_product_def dbl_1_1_def Let_def)
qed

lemma batch_size_floor:
  "0 < needed \<Longrightarrow> needed < 2 ^ 48 \<Longrightarrow> batch_size needed = Inr (needed * 11 div 10 + 10)"
  by (simp add: batch_size_def int_of_product_1_1)

text \<open>
  Claim C3, as the code has it. In a pass with
  \<open>needed = count - rows_collected\<close> positive (and below \<open>2 ^ 48\<close>), the number of
  rows requested from the Row Source is \<^verbatim>\<open>int(needed * 1.1) + 10\<close>, which is
  \<open>floor(11 * needed / 10) + 10\<close>: the product is truncated, not rounded up.
\<close>

theorem requested_rows_truncated:
  assumes "needed = count - int (length (generated_data st))"
    and "0 < needed" and "needed < 2 ^ 48"
    and "gen_pass env count original_df anomaly_json st = Inr (b, st')"
  shows "batch_size needed = Inr (needed * 11 div 10 + 10)
         \<and> requests st' = requests st @ [needed * 11 div 10 + 10]"
proof -
  have bs: "batch_size needed = Inr (needed * 11 div 10 + 10)"
    using assms(2,3) by (rule batch_size_floor)
  then have "batch_size (count - int (length (generated_data st)))
      = Inr (needed * 11 div 10 + 10)"
    using assms(1) by simp
  then have "requests st' = requests st @ [needed * 11 div 10 + 10]"
    using assms(4)
    by (auto simp: gen_pass_def Let_def split: sum.splits option.splits list.splits)
  with bs show ?thesis by simp
qed

theorem requested_rows_truncated_witness:
  "gen_pass env_same 1 None None init_state
     = Inr (False, \<lparr>generated_data = [row_a], attempts = 1, draws = 0,
                     logged = [Info_Pass 1 11], requests = [11]\<rparr>)
   \<and> batch_size 1 = Inr 11
   \<and> requests \<lparr>generated_data = [row_a], attempts = 1, draws = 0,
                 logged = [Info_Pass 1 11], requests = [11]\<rparr>
       = requests (init_state :: nat gstate) @ [11]"
proof -
  let ?s = "\<lparr>generated_data = [row_a], attempts = 1, draws = 0,
              logged = [Info_Pass 1 11], requests = [11::int]\<rparr>"
  have p: "gen_pass env_same 1 None None init_state = Inr (False, ?s)"
    by code_simp
  have n: "(1::int) = 1 - int (length (generated_data (init_state :: nat gstate)))"
    by (simp add: init_state_def)
  show ?thesis
    using p requested_rows_truncated [OF n _ _ p] by simp
qed

text \<open>
  The claim as written asks for \<open>ceil(needed * 1.1) + 10\<close> rows. With one row needed
  that is 12, and the run requests 11.
\<close>

theorem requested_rows_ceiling_counterexample:
  "sample_calls (generate env_same 1 None None) = [11]
   \<and> \<lceil>real_of_int 1 * (11 / 10)\<rceil> + 10 = (12::int)"
proof -
  have "sample_calls (generate env_same 1 None None) = [11]" by code_simp
  moreover have "\<lceil>real_of_int 1 * (11 / 10)\<rceil> + 10 = (12::int)" by simp
  ultimately show ?thesis by simp
qed

section \<open>A target of zero rows or fewer\<close>

text \<open>
  Claim C6. With a target count of zero or below and the model loaded, the loop makes
  no pass: no request reaches the Row Source, nothing is accumulated, no warning or
  error is logged, and the (empty) result is written.
\<close>

theorem empty_target_short_circuit:
  assumes "count \<le> 0" and "model_loads env"
  shows "gen_loop env count original_df anomaly_json init_state = Inr init_state
    \<and> generate env count original_df anomaly_json =
        (if to_csv env []
         then \<lparr>outcome = Saved [], final_log = [Info_Final 0], sample_calls = []\<rparr>
         else \<lparr>outcome = Sys_Exit 1, final_log = [Info_Final 0, Error_Save_Failed],
                sample_calls = []\<rparr>)"
proof -
  have "\<not> (int (length (generated_data (init_state :: 'a gstate))) < count
      \<and> attempts (init_state :: 'a gstate) < max_attempts)"
    using assms(1) by (simp add: init_state_def)
  then have l: "gen_loop env count original_df anomaly_json init_state = Inr init_state"
    by (rule gen_loop_stop)
  have "trim count ([] :: 'a row list) = []" by (simp add: trim_def py_head_def)
  then show ?thesis using l assms generate_after_loop [OF assms(2) l]
    by (simp add: init_state_def Let_def)
qed

theorem empty_target_short_circuit_witness:
  "(0::int) \<le> 0 \<and> model_loads env_distinct
   \<and> gen_loop env_distinct 0 (Some original_aab) None init_state = Inr init_state
   \<and> generate env_distinct 0 (Some original_aab) None
       = \<lparr>outcome = Saved [], final_log = [Info_Final 0], sample_calls = []\<rparr>"
proof -
  have m: "model_loads env_distinct" and w: "to_csv env_distinct []"
    by (simp_all add: env_distinct_def)
  have z: "(0::int) \<le> 0" by simp
  show ?thesis
    using m w empty_target_short_circuit [OF z m, of "Some original_aab" None] by simp
qed

section \<open>Exact count or best effort\<close>

lemma trim_reached: "0 < count \<Longrightarrow> count \<le> int (length gd) \<Longrightarrow> trim count gd = take (nat count) gd"
  by (simp add: trim_def py_head_def)

lemma trim_short: "int (length gd) < count \<Longrightarrow> trim count gd = gd"
  by (simp add: trim_def)

text \<open>
  Claim C5. Let the target \<open>T\<close> be positive and let the loop end without an uncaught
  exception, with the accumulated rows \<open>generated_data st\<close> (free of duplicates, after at
  most 10 attempts). If they are at least \<open>T\<close>, the output is their first \<open>T\<close> rows,
  in accumulation order, and no shortfall warning is logged. If they are fewer than
  \<open>T\<close>, the output is all of them, the shortfall warning is logged, and the run ends
  by writing the file: the only other end is exit status 1 when the file cannot be
  written. The loop then stopped because the 10 attempts were used up or sampling
  failed.
\<close>

theorem exact_count_or_best_effort:
  assumes "0 < T" and "model_loads env"
    and "gen_loop env T original_df anomaly_json init_state = Inr st"
  shows "distinct (generated_data st) \<and> attempts st \<le> 10
    \<and> (T \<le> int (length (generated_data st)) \<longrightarrow>
          length (take (nat T) (generated_data st)) = nat T
          \<and> generate env T original_df anomaly_json =
              (if to_csv env (take (nat T) (generated_data st))
               then \<lparr>outcome = Saved (take (nat T) (generated_data st)),
                      final_log = logged st @ [Info_Final (nat T)],
                      sample_calls = requests st\<rparr>
               else \<lparr>outcome = Sys_Exit 1,
                      final_log = logged st @ [Info_Final (nat T), Error_Save_Failed],
                      sample_calls = requests st\<rparr>))
    \<and> (int (length (generated_data st)) < T \<longrightarrow>
          (attempts st = 10 \<or> Error_Sampling_Failed \<in> set (logged st))
          \<and> generate env T original_df anomaly_json =
              (if to_csv env (generated_data st)
               then \<lparr>outcome = Saved (generated_data st),
                      final_log = logged st @ [Info_Final (length (generated_data st)),
                                              Warning_Shortfall T],
                      sample_calls = requests st\<rparr>
               else \<lparr>outcome = Sys_Exit 1,
                      final_log = logged st @ [Info_Final (length (generated_data st)),
                                              Warning_Shortfall T, Error_Save_Failed],
                      sample_calls = requests st\<rparr>))"
proof -
  note ex = gen_loop_exit [OF assms(3) loop_inv_init]
  note g = generate_after_loop [OF assms(2,3)]
  have a: "distinct (generated_data st) \<and> attempts st \<le> 10"
    using ex by (simp add: loop_inv_def max_attempts_def)
  have b: "T \<le> int (length (generated_data st)) \<Longrightarrow>
      length (take (nat T) (generated_data st)) = nat T" by simp
  have c: "T \<le> int (length (generated_data st)) \<Longrightarrow>
      generate env T original_df anomaly_json =
              (if to_csv env (take (nat T) (generated_data st))
               then \<lparr>outcome = Saved (take (nat T) (generated_data st)),
                      final_log = logged st @ [Info_Final (nat T)],
                      sample_calls = requests st\<rparr>
               else \<lparr>outcome = Sys_Exit 1,
                      final_log = logged st @ [Info_Final (nat T), Error_Save_Failed],
                      sample_calls = requests st\<rparr>)"
  proof -
    assume t: "T \<le> int (length (generated_data st))"
    then have "min (length (generated_data st)) (nat T) = nat T" by arith
    moreover have "\<not> int (nat T) < T" by simp
    ultimately show ?thesis using g assms(1) t
      by (simp add: trim_reached Let_def)
  qed
  have d: "int (length (generated_data st)) < T \<Longrightarrow>
      attempts st = 10 \<or> Error_Sampling_Failed \<in> set (logged st)"
    using ex by (auto simp: max_attempts_def)
  have e: "int (length (generated_data st)) < T \<Longrightarrow>
      generate env T original_df anomaly_json =
              (if to_csv env (generated_data st)
               then \<lparr>outcome = Saved (generated_data st),
                      final_log = logged st @ [Info_Final (length (generated_data st)),
                                              Warning_Shortfall T],
                      sample_calls = requests st\<rparr>
               else \<lparr>outcome = Sys_Exit 1,
                      final_log = logged st @ [Info_Final (length (generated_data st)),
                                              Warning_Shortfall T, Error_Save_Failed],
                      sample_calls = requests st\<rparr>)"
    using g by (simp add: trim_short Let_def)
  from a b c d e show ?thesis by blast
qed


theorem exact_count_or_best_effort_witness:
  "(0::int) < 2 \<and> model_loads env_distinct \<and> model_loads env_same
   \<and> gen_loop env_distinct 2 None None init_state
       = Inr \<lparr>generated_data = [row_a, row_c, row_b] @ map row_d [0..<9], attempts = 1,
               draws = 0, logged = [Info_Pass 1 12], requests = [12]\<rparr>
   \<and> generate env_distinct 2 None None
       = \<lparr>outcome = Saved [row_a, row_c], final_log = [Info_Pass 1 12, Info_Final 2],
          sample_calls = [12]\<rparr>
   \<and> gen_loop env_same 2 None None init_state
       = Inr \<lparr>generated_data = [row_a], attempts = 10, draws = 0,
               logged = Info_Pass 1 12 # map (\<lambda>k. Info_Pass k 11) [2..<11],
               requests = 12 # replicate 9 11\<rparr>
   \<and> generate env_same 2 None None
       = \<lparr>outcome = Saved [row_a],
          final_log = Info_Pass 1 12 # map (\<lambda>k. Info_Pass k 11) [2..<11]
                        @ [Info_Final 1, Warning_Shortfall 2],
          sample_calls = 12 # replicate 9 11\<rparr>"
proof -
  let ?sa = "\<lparr>generated_data = [row_a, row_c, row_b] @ map row_d [0..<9], attempts = 1,
               draws = 0, logged = [Info_Pass 1 12], requests = [12::int]\<rparr>"
  let ?sb = "\<lparr>generated_data = [row_a], attempts = 10, draws = 0,
               logged = Info_Pass 1 12 # map (\<lambda>k. Info_Pass k 11) [2..<11],
               requests = 12 # replicate 9 (11::int)\<rparr>"
  have p: "(0::int) < 2" by simp
  have ma: "model_loads env_distinct" and wa: "\<And>df. to_csv env_distinct df"
    by (simp_all add: env_distinct_def)
  have mb: "model_loads env_same" and wb: "\<And>df. to_csv env_same df"
    by (simp_all add: env_same_def)
  have la: "gen_loop env_distinct 2 None None init_state = Inr ?sa" by code_simp
  have lb: "gen_loop env_same 2 None None init_state = Inr ?sb" by code_simp
  have ga: "generate env_distinct 2 None None
      = \<lparr>outcome = Saved [row_a, row_c], final_log = [Info_Pass 1 12, Info_Final 2],
         sample_calls = [12]\<rparr>"
    using exact_count_or_best_effort [OF p ma la] wa by simp
  have gb: "generate env_same 2 None None
      = \<lparr>outcome = Saved [row_a],
          final_log = Info_Pass 1 12 # map (\<lambda>k. Info_Pass k 11) [2..<11]
                        @ [Info_Final 1, Warning_Shortfall 2],
          sample_calls = 12 # replicate 9 11\<rparr>"
    using exact_count_or_best_effort [OF p mb lb] wb by simp
  from p ma mb la lb ga gb show ?thesis by simp
qed

section \<open>A failure of the Row Source\<close>

lemma gen_pass_sampling_fails:
  assumes "batch_size (count - int (length (generated_data st))) = Inr bs"
    and "model_sample env (attempts st) bs = None"
  shows "gen_pass env count original_df anomaly_json st =
     Inr (True, st\<lparr>attempts := Suc (attempts st),
                    logged := logged st @ [Info_Pass (Suc (attempts st)) bs, Error_Sampling_Failed],
                    requests := requests st @ [bs]\<rparr>)"
  using assms by (simp add: gen_pass_def Let_def)

text \<open>
  Claim C7, as the code has it. With the model loaded, a file with fewer rows than the
  target is written only when all 10 attempts were made or the Row Source failed, and
  then the shortfall warning is logged. When \<^verbatim>\<open>model.sample\<close> raises in a pass, the
  loop logs the error and ends at once (\<^verbatim>\<open>break\<close>): one more attempt counted, no
  further request, the rows accumulated so far kept; they are what is then written.
\<close>

theorem short_file_after_exhaustion_or_failure:
  assumes "model_loads env"
  shows "(outcome (generate env count original_df anomaly_json) = Saved out
            \<and> int (length out) < count \<longrightarrow>
          Warning_Shortfall count \<in> set (final_log (generate env count original_df anomaly_json))
          \<and> (length (sample_calls (generate env count original_df anomaly_json)) = 10
               \<or> Error_Sampling_Failed
                    \<in> set (final_log (generate env count original_df anomaly_json))))
    \<and> (int (length (generated_data st)) < count \<and> attempts st < max_attempts
          \<and> batch_size (count - int (length (generated_data st))) = Inr bs
          \<and> model_sample env (attempts st) bs = None \<longrightarrow>
        gen_loop env count original_df anomaly_json st =
          Inr (st\<lparr>attempts := Suc (attempts st),
                  logged := logged st @ [Info_Pass (Suc (attempts st)) bs, Error_Sampling_Failed],
                  requests := requests st @ [bs]\<rparr>))"
proof -
  let ?g = "generate env count original_df anomaly_json"
  have a: "Warning_Shortfall count \<in> set (final_log ?g)
      \<and> (length (sample_calls ?g) = 10 \<or> Error_Sampling_Failed \<in> set (final_log ?g))"
    if o: "outcome ?g = Saved out" and l: "int (length out) < count"
  proof (cases "gen_loop env count original_df anomaly_json init_state")
    case (Inl e)
    then show ?thesis using o assms by (simp add: generate_def)
  next
    case (Inr s)
    note g = generate_after_loop [OF assms Inr]
    note ex = gen_loop_exit [OF Inr loop_inv_init]
    have out: "out = trim count (generated_data s)"
      using o g by (simp add: Let_def split: if_splits)
    have w: "to_csv env (trim count (generated_data s))"
      using o g by (simp add: Let_def split: if_splits)
    have short: "int (length (generated_data s)) < count"
    proof (rule ccontr)
      assume "\<not> int (length (generated_data s)) < count"
      then have "count \<le> int (length (generated_data s))" by simp
      then have "count \<le> int (length (trim count (generated_data s)))"
        by (auto simp: trim_def py_head_def)
      then show False using l out by simp
    qed
    then have t: "trim count (generated_data s) = generated_data s" by (rule trim_short)
    have "attempts s = max_attempts \<or> Error_Sampling_Failed \<in> set (logged s)"
      using ex short by auto
    moreover have "length (requests s) = attempts s" using ex by (simp add: loop_inv_def)
    ultimately show ?thesis using g w short t by (auto simp: Let_def max_attempts_def)
  qed
  have b: "gen_loop env count original_df anomaly_json st =
          Inr (st\<lparr>attempts := Suc (attempts st),
                  logged := logged st @ [Info_Pass (Suc (attempts st)) bs, Error_Sampling_Failed],
                  requests := requests st @ [bs]\<rparr>)"
    if "int (length (generated_data st)) < count \<and> attempts st < max_attempts"
      and "batch_size (count - int (length (generated_data st))) = Inr bs"
      and "model_sample env (attempts st) bs = None"
    using that gen_pass_sampling_fails [OF that(2,3), of original_df anomaly_json]
    by (simp add: gen_loop_step)
  from a b show ?thesis by blast
qed


lemma generate_env_failing:
  "generate env_failing 2 None None
     = \<lparr>outcome = Saved [row_a],
        final_log = [Info_Pass 1 12, Info_Pass 2 11, Error_Sampling_Failed, Info_Final 1,
                     Warning_Shortfall 2],
        sample_calls = [12, 11]\<rparr>"
  by code_simp

theorem short_file_after_exhaustion_or_failure_witness:
  "model_loads env_failing
   \<and> outcome (generate env_failing 2 None None) = Saved [row_a]
   \<and> int (length [row_a]) < 2
   \<and> Warning_Shortfall 2 \<in> set (final_log (generate env_failing 2 None None))
   \<and> Error_Sampling_Failed \<in> set (final_log (generate env_failing 2 None None))
   \<and> batch_size (2 - int (length [row_a])) = Inr 11
   \<and> model_sample env_failing 1 11 = None
   \<and> gen_loop env_failing 2 None None
        \<lparr>generated_data = [row_a], attempts = 1, draws = 0, logged = [Info_Pass 1 12],
         requests = [12]\<rparr>
       = Inr \<lparr>generated_data = [row_a], attempts = 2, draws = 0,
               logged = [Info_Pass 1 12, Info_Pass 2 11, Error_Sampling_Failed],
               requests = [12, 11]\<rparr>"
proof -
  let ?s = "\<lparr>generated_data = [row_a], attempts = 1, draws = 0, logged = [Info_Pass 1 12],
              requests = [12::int]\<rparr>"
  have m: "model_loads env_failing" and f: "model_sample env_failing 1 11 = None"
    by (simp_all add: env_failing_def)
  have b: "batch_size (2 - int (length [row_a])) = Inr 11" by code_simp
  have o: "outcome (generate env_failing 2 None None) = Saved [row_a]"
    using generate_env_failing by simp
  have c: "length (sample_calls (generate env_failing 2 None None)) \<noteq> 10"
    using generate_env_failing by simp
  show ?thesis
    using m f b o c
      short_file_after_exhaustion_or_failure [OF m, of 2 None None "[row_a]" ?s 11]
    by (simp add: max_attempts_def)
qed

text \<open>
  The claim as written allows a short file only when the attempt budget is exhausted.
  Here the Row Source fails on the second of ten attempts, and the one row collected
  before is written as the output for a target of two.
\<close>

theorem short_file_without_exhaustion_counterexample:
  "outcome (generate env_failing 2 None None) = Saved [row_a]
   \<and> length (sample_calls (generate env_failing 2 None None)) = 2
   \<and> final_log (generate env_failing 2 None None)
       = [Info_Pass 1 12, Info_Pass 2 11, Error_Sampling_Failed, Info_Final 1,
          Warning_Shortfall 2]"
  using generate_env_failing by simp

section \<open>The leakage filter where the merged frame lines up with the batch\<close>




text \<open>
  When no two rows of the original dataset agree on all common columns, the merged
  frame has one row for each row of the batch, its positions are the labels of the
  batch, and the filter keeps exactly the rows whose key is not a key of the original
  dataset, in order.
\<close>

lemma matches_of_unique_key:
  "distinct ks \<Longrightarrow> length (filter (\<lambda>k'. k' = k) ks) = (if k \<in> set ks then 1 else 0)"
  by (induction ks) auto

lemma merge_marks_unique:
  assumes "distinct okeys"
  shows "merge_marks skeys okeys = map (\<lambda>k. k \<in> set okeys) skeys"
  by (induction skeys) (simp_all add: merge_marks_def matches_of_unique_key [OF assms])

lemma zip_upt_nth: "zip [0..<length xs] xs = map (\<lambda>i. (i, xs ! i)) [0..<length xs]"
  by (rule nth_equalityI) simp_all

lemma keep_unmarked:
  assumes "length ms = length xs"
  shows "map snd (filter (\<lambda>p. fst p \<notin> set (leaked_indices ms)) (zip [0..<length xs] xs))
     = map snd (filter (\<lambda>p. \<not> fst p) (zip ms xs))"
proof -
  have z: "zip ms xs = map (\<lambda>i. (ms ! i, xs ! i)) [0..<length xs]"
    using assms by (intro nth_equalityI) simp_all
  have "\<And>i. i \<in> set [0..<length xs] \<Longrightarrow> (i \<notin> set (leaked_indices ms)) = (\<not> ms ! i)"
    using assms by (simp add: leaked_indices_def)
  then have "filter (\<lambda>i. i \<notin> set (leaked_indices ms)) [0..<length xs]
      = filter (\<lambda>i. \<not> ms ! i) [0..<length xs]"
    by (intro filter_cong) simp_all
  then show ?thesis
    by (simp add: zip_upt_nth z filter_map comp_def)
qed

lemma keep_unmarked_filter:
  "map snd (filter (\<lambda>p. \<not> fst p) (zip (map (\<lambda>r. f r) xs) xs)) = filter (\<lambda>r. \<not> f r) xs"
  by (induction xs) simp_all


lemma leaked_indices_bound: "i \<in> set (leaked_indices ms) \<Longrightarrow> i < length ms"
  by (simp add: leaked_indices_def)

lemma leakage_filter_exact_when_unique:
  assumes "\<not> frame_empty odf" and "common = common_cols (columns odf) scols"
    and "common \<noteq> []" and "okeys = map (key_of (columns odf) common) (rows odf)"
    and "distinct okeys"
  shows "\<exists>lg. leakage_filter (Some odf) scols samples =
     Inr (filter (\<lambda>r. key_of scols common r \<notin> set okeys) samples, lg)"
proof -
  let ?f = "\<lambda>r. key_of scols common r \<in> set okeys"
  let ?ms = "merge_marks (map (key_of scols common) samples) okeys"
  have ms: "?ms = map ?f samples"
    using merge_marks_unique [OF assms(5)] by (simp add: comp_def)
  then have len: "length ?ms = length samples" by simp
  have kept: "map snd (filter (\<lambda>p. fst p \<notin> set (leaked_indices ?ms))
      (zip [0..<length samples] samples)) = filter (\<lambda>r. \<not> ?f r) samples"
    using keep_unmarked [OF len] keep_unmarked_filter [of ?f samples] by (simp add: ms)
  have ok: "\<not> (\<exists>i \<in> set (leaked_indices ?ms). length samples \<le> i)"
    using leaked_indices_bound [of _ ?ms] len by fastforce
  show ?thesis
  proof (cases "leaked_indices ?ms = []")
    case True
    then have "filter (\<lambda>r. \<not> ?f r) samples = samples"
      using kept by (simp add: zip_upt_nth comp_def map_nth)
    then show ?thesis using True assms(1-4)
      by (simp add: leakage_filter_def Let_def)
  next
    case False
    have "drop_labels samples (leaked_indices ?ms) = Inr (filter (\<lambda>r. \<not> ?f r) samples)"
      using ok kept by (simp add: drop_labels_def)
    then show ?thesis using False assms(1-4)
      by (simp add: leakage_filter_def Let_def)
  qed
qed

lemma gen_pass_rows:
  assumes "gen_pass env count original_df anomaly_json st = Inr (b, st')"
    and "\<And>samples flt. leakage_filter original_df (model_columns env) samples = Inr flt
           \<Longrightarrow> \<forall>r \<in> set (fst flt). P r"
    and "\<forall>r \<in> set (generated_data st). P r"
  shows "\<forall>r \<in> set (generated_data st'). P r"
  using assms
  by (auto simp: gen_pass_def Let_def accumulate_set
      split: sum.splits option.splits list.splits)

lemma gen_loop_rows_unique:
  assumes "\<not> frame_empty odf" and "common = common_cols (columns odf) (model_columns env)"
    and "common \<noteq> []" and "okeys = map (key_of (columns odf) common) (rows odf)"
    and "distinct okeys"
    and "gen_loop env count (Some odf) anomaly_json st = Inr st'"
    and "\<forall>r \<in> set (generated_data st). key_of (model_columns env) common r \<notin> set okeys"
  shows "\<forall>r \<in> set (generated_data st'). key_of (model_columns env) common r \<notin> set okeys"
  using assms
proof (induction env count "Some odf" anomaly_json st rule: gen_loop.induct)
  case (1 env count anomaly_json st)
  show ?case
  proof (cases "int (length (generated_data st)) < count \<and> attempts st < max_attempts")
    case False
    then have "gen_loop env count (Some odf) anomaly_json st = Inr st" by (rule gen_loop_stop)
    then show ?thesis using "1.prems"(6,7) by simp
  next
    case True
    then obtain r where r: "gen_pass env count (Some odf) anomaly_json st = Inr r"
      using "1.prems"(6) by (cases "gen_pass env count (Some odf) anomaly_json st")
        (simp_all add: gen_loop_step)
    then have p: "gen_pass env count (Some odf) anomaly_json st = Inr (fst r, snd r)" by simp
    have flt: "\<forall>x \<in> set (fst flt). key_of (model_columns env) common x \<notin> set okeys"
      if "leakage_filter (Some odf) (model_columns env) samples = Inr flt" for samples flt
      using leakage_filter_exact_when_unique [OF "1.prems"(1-5), of samples] that by auto
    have inv: "\<forall>x \<in> set (generated_data (snd r)).
        key_of (model_columns env) common x \<notin> set okeys"
      using p flt "1.prems"(7) by (rule gen_pass_rows)
    show ?thesis
    proof (cases "fst r")
      case brk: True
      then have "st' = snd r" using "1.prems"(6) True r by (simp add: gen_loop_step)
      then show ?thesis using inv by simp
    next
      case nobrk: False
      then have l: "gen_loop env count (Some odf) anomaly_json (snd r) = Inr st'"
        using "1.prems"(6) True r by (simp add: gen_loop_step)
      show ?thesis using "1.hyps" [OF True r nobrk "1.prems"(1-5) l inv] .
    qed
  qed
qed

lemma trim_subset: "set (trim count gd) \<subseteq> set gd"
  by (auto simp: trim_def py_head_def dest: in_set_takeD)

text \<open>
  So the output of a run holds no row that agrees with an original row on all common
  columns, provided the original dataset has no two rows that agree on them.
\<close>

lemma no_leak_when_unique:
  assumes "\<not> frame_empty odf" and "common = common_cols (columns odf) (model_columns env)"
    and "common \<noteq> []" and "okeys = map (key_of (columns odf) common) (rows odf)"
    and "distinct okeys"
    and "outcome (generate env count (Some odf) anomaly_json) = Saved out"
  shows "\<forall>r \<in> set out. key_of (model_columns env) common r \<notin> set okeys"
proof (cases "model_loads env")
  case False
  then show ?thesis using assms(6) by (simp add: generate_def)
next
  case True
  show ?thesis
  proof (cases "gen_loop env count (Some odf) anomaly_json init_state")
    case (Inl e)
    then show ?thesis using assms(6) True by (simp add: generate_def)
  next
    case (Inr st)
    have "\<forall>r \<in> set (generated_data (init_state :: 'a gstate)).
        key_of (model_columns env) common r \<notin> set okeys"
      by (simp add: init_state_def)
    from gen_loop_rows_unique [OF assms(1-5) Inr this]
    have inv: "\<forall>r \<in> set (generated_data st). key_of (model_columns env) common r \<notin> set okeys" .
    have "out = trim count (generated_data st)"
      using assms(6) generate_after_loop [OF True Inr] by (simp add: Let_def split: if_splits)
    then show ?thesis using inv trim_subset [of count "generated_data st"] by auto
  qed
qed

lemma leaks_iff_key:
  "common_cols (columns odf) scols \<noteq> [] \<Longrightarrow>
     leaks odf scols r \<longleftrightarrow>
       key_of scols (common_cols (columns odf) scols) r
         \<in> set (map (key_of (columns odf) (common_cols (columns odf) scols)) (rows odf))"
  by (force simp: leaks_def Let_def image_iff)

lemma leakage_filter_removes_leaks_when_unique:
  assumes "\<not> frame_empty odf" and "common_cols (columns odf) scols \<noteq> []"
    and "distinct (map (key_of (columns odf) (common_cols (columns odf) scols)) (rows odf))"
  shows "\<exists>lg. leakage_filter (Some odf) scols samples =
     Inr (filter (\<lambda>r. \<not> leaks odf scols r) samples, lg)"
  using leakage_filter_exact_when_unique [OF assms(1) refl assms(2) refl assms(3), of samples]
  by (simp add: leaks_iff_key [OF assms(2)])

lemma output_leak_free_when_unique:
  assumes "\<not> frame_empty odf" and "common_cols (columns odf) (model_columns env) \<noteq> []"
    and "distinct (map (key_of (columns odf) (common_cols (columns odf) (model_columns env)))
           (rows odf))"
    and "outcome (generate env count (Some odf) anomaly_json) = Saved out"
  shows "\<forall>r \<in> set out. \<not> leaks odf (model_columns env) r"
  using no_leak_when_unique [OF assms(1) refl assms(2) refl assms(3,4)]
  by (simp add: leaks_iff_key [OF assms(2)])

section \<open>The anomaly injector sets a truncated share of the rows\<close>




lemma set_cells_length: "length (set_cells cols c v r) = length r"
  by (induction cols c v r rule: set_cells.induct) simp_all





lemma apply_anomaly_value_error:
  assumes "a_column a = Some col" and "col \<in> set cols"
    and "sample_count (length df) (a_ratio a) = Inr cnt"
    and "cnt < 0 \<or> int (length df) < cnt"
  shows "apply_anomaly pick cols (df, k) a = Inl ValueError"
  using assms by (auto simp: apply_anomaly_def Let_def)




section \<open>A fixed-value rule without a value\<close>



section \<open>An anomaly configuration that cannot be parsed\<close>

lemma leakage_filter_log:
  "leakage_filter original_df scols samples = Inr flt \<Longrightarrow>
     Warning_Parse_Failed \<notin> set (snd flt) \<and> Error_Sampling_Failed \<notin> set (snd flt)"
  by (auto simp: leakage_filter_def Let_def split: option.splits if_splits sum.splits)

lemma filter_id_if_absent: "x \<notin> set xs \<Longrightarrow> filter (\<lambda>e. e \<noteq> x) xs = xs"
  by (induction xs) auto

lemma load_anomalies_unparseable:
  "loads s = None \<Longrightarrow>
     load_anomalies loads (Some s) = (None, if s = [] then [] else [Warning_Parse_Failed])"
  by (simp add: load_anomalies_def)

lemma load_anomalies_absent: "load_anomalies loads None = (None, [])"
  by (simp add: load_anomalies_def)

lemma gen_pass_unparseable:
  assumes "json_loads env s = None"
  shows "gen_pass env count original_df None (quiet st) =
     (case gen_pass env count original_df (Some s) st of
        Inl e \<Rightarrow> Inl e
      | Inr r \<Rightarrow> Inr (fst r, quiet (snd r)))"
  using assms
  by (auto simp: gen_pass_def Let_def quiet_def load_anomalies_unparseable load_anomalies_absent
      filter_id_if_absent leakage_filter_log
      split: sum.splits option.splits)


lemma quiet_fields:
  "generated_data (quiet st) = generated_data st" "attempts (quiet st) = attempts st"
  "requests (quiet st) = requests st"
  "logged (quiet st) = filter (\<lambda>e. e \<noteq> Warning_Parse_Failed) (logged st)"
  by (simp_all add: quiet_def)

lemma gen_loop_unparseable:
  assumes "json_loads env s = None"
  shows "gen_loop env count original_df None (quiet st) =
     (case gen_loop env count original_df (Some s) st of
        Inl e \<Rightarrow> Inl e
      | Inr st' \<Rightarrow> Inr (quiet st'))"
  using assms
proof (induction env count original_df "Some s" st rule: gen_loop.induct)
  case (1 env count original_df st)
  note un = gen_pass_unparseable [OF "1.prems", of count original_df st]
  show ?case
  proof (cases "int (length (generated_data st)) < count \<and> attempts st < max_attempts")
    case False
    then have "\<not> (int (length (generated_data (quiet st))) < count
        \<and> attempts (quiet st) < max_attempts)"
      by (simp add: quiet_fields)
    then show ?thesis using False by (simp add: gen_loop_stop)
  next
    case True
    then have q: "int (length (generated_data (quiet st))) < count
        \<and> attempts (quiet st) < max_attempts"
      by (simp add: quiet_fields)
    show ?thesis
    proof (cases "gen_pass env count original_df (Some s) st")
      case (Inl e)
      then have "gen_pass env count original_df None (quiet st) = Inl e"
        using un by simp
      then show ?thesis using True q Inl by (simp add: gen_loop_step)
    next
      case (Inr r)
      then have p: "gen_pass env count original_df None (quiet st) = Inr (fst r, quiet (snd r))"
        using un by simp
      show ?thesis
      proof (cases "fst r")
        case True
        then show ?thesis using \<open>int (length (generated_data st)) < count
            \<and> attempts st < max_attempts\<close> q Inr p
          by (simp add: gen_loop_step)
      next
        case False
        then show ?thesis using \<open>int (length (generated_data st)) < count
            \<and> attempts st < max_attempts\<close> q Inr p "1.hyps" [OF _ Inr False "1.prems"]
          by (simp add: gen_loop_step)
      qed
    qed
  qed
qed


lemma gen_pass_warns_once:
  assumes "json_loads env s = None" and "s \<noteq> []"
    and "gen_pass env count original_df (Some s) st = Inr r"
  shows "count_list (logged (snd r)) Warning_Parse_Failed
           + count_list (logged (snd r)) Error_Sampling_Failed
         = Suc (count_list (logged st) Warning_Parse_Failed
                + count_list (logged st) Error_Sampling_Failed)
    \<and> length (requests (snd r)) = Suc (length (requests st))"
  using assms
  by (auto simp: gen_pass_def Let_def load_anomalies_unparseable
      dest!: leakage_filter_log split: sum.splits option.splits)

lemma gen_loop_warns:
  assumes "json_loads env s = None" and "s \<noteq> []"
    and "gen_loop env count original_df (Some s) st = Inr st'"
  shows "count_list (logged st') Warning_Parse_Failed
           + count_list (logged st') Error_Sampling_Failed + length (requests st)
         = count_list (logged st) Warning_Parse_Failed
             + count_list (logged st) Error_Sampling_Failed + length (requests st')"
  using assms
proof (induction env count original_df "Some s" st rule: gen_loop.induct)
  case (1 env count original_df st)
  show ?case
  proof (cases "int (length (generated_data st)) < count \<and> attempts st < max_attempts")
    case False
    then have "gen_loop env count original_df (Some s) st = Inr st" by (rule gen_loop_stop)
    then show ?thesis using "1.prems"(3) by simp
  next
    case True
    then obtain r where r: "gen_pass env count original_df (Some s) st = Inr r"
      using "1.prems"(3) by (cases "gen_pass env count original_df (Some s) st")
        (simp_all add: gen_loop_step)
    note w = gen_pass_warns_once [OF "1.prems"(1,2) r]
    show ?thesis
    proof (cases "fst r")
      case brk: True
      then have "st' = snd r" using "1.prems"(3) True r by (simp add: gen_loop_step)
      then show ?thesis using w by simp
    next
      case nobrk: False
      then have l: "gen_loop env count original_df (Some s) (snd r) = Inr st'"
        using "1.prems"(3) True r by (simp add: gen_loop_step)
      show ?thesis using "1.hyps" [OF True r nobrk "1.prems"(1,2) l] w by simp
    qed
  qed
qed


lemma quiet_init: "quiet init_state = init_state"
  by (simp add: quiet_def init_state_def)

lemma load_anomalies_empty_string:
  "load_anomalies loads (Some []) = load_anomalies loads None"
  by (simp add: load_anomalies_def)

lemma gen_pass_empty_string:
  "gen_pass env count original_df (Some []) st = gen_pass env count original_df None st"
  unfolding gen_pass_def load_anomalies_empty_string by (rule refl)

lemma gen_loop_empty_string:
  "gen_loop env count original_df (Some []) st = gen_loop env count original_df None st"
proof (induction env count original_df "None :: string option" st rule: gen_loop.induct)
  case (1 env count original_df st)
  show ?case
  proof (cases "int (length (generated_data st)) < count \<and> attempts st < max_attempts")
    case False
    then show ?thesis by (simp add: gen_loop_stop)
  next
    case True
    show ?thesis
    proof (cases "gen_pass env count original_df None st")
      case (Inl e)
      then show ?thesis using True by (simp add: gen_loop_step gen_pass_empty_string)
    next
      case (Inr r)
      then show ?thesis using True "1.hyps" [OF True Inr]
        by (simp add: gen_loop_step gen_pass_empty_string)
    qed
  qed
qed

lemma generate_empty_string:
  "generate env count original_df (Some []) = generate env count original_df None"
  by (simp add: generate_def gen_loop_empty_string)

text \<open>
  Claim C10, as the code has it. When \<^verbatim>\<open>json.loads\<close> raises on the configuration
  string, the run does what the run without a configuration does: the same outcome
  (so every batch passes through unmodified and the run is not aborted by the
  configuration), the same requests to the Row Source, and the same log once the
  warnings about the configuration are taken out. For a non-empty string one warning
  is logged in each pass whose batch was sampled: in a run that ends without an
  uncaught exception, the warnings and the sampling failures together are as many as
  the requests. For the empty string nothing is logged: the run is the run without a
  configuration.
\<close>

theorem unparseable_configuration_disables_injection:
  assumes "json_loads env s = None"
  shows "outcome (generate env count original_df (Some s))
           = outcome (generate env count original_df None)
    \<and> sample_calls (generate env count original_df (Some s))
           = sample_calls (generate env count original_df None)
    \<and> filter (\<lambda>e. e \<noteq> Warning_Parse_Failed)
          (final_log (generate env count original_df (Some s)))
           = final_log (generate env count original_df None)
    \<and> (s \<noteq> [] \<and> model_loads env
          \<and> (\<forall>e. outcome (generate env count original_df (Some s)) \<noteq> Uncaught e) \<longrightarrow>
        count_list (final_log (generate env count original_df (Some s))) Warning_Parse_Failed
          + count_list (final_log (generate env count original_df (Some s)))
              Error_Sampling_Failed
        = length (sample_calls (generate env count original_df (Some s))))
    \<and> (s = [] \<longrightarrow>
        generate env count original_df (Some s) = generate env count original_df None)"
proof -
  let ?g = "generate env count original_df (Some s)"
  let ?n = "generate env count original_df None"
  have e: "s = [] \<longrightarrow> ?g = ?n" by (simp add: generate_empty_string)
  have abcd: "outcome ?g = outcome ?n \<and> sample_calls ?g = sample_calls ?n
    \<and> filter (\<lambda>e. e \<noteq> Warning_Parse_Failed) (final_log ?g) = final_log ?n
    \<and> (s \<noteq> [] \<and> model_loads env \<and> (\<forall>e. outcome ?g \<noteq> Uncaught e) \<longrightarrow>
        count_list (final_log ?g) Warning_Parse_Failed
          + count_list (final_log ?g) Error_Sampling_Failed
        = length (sample_calls ?g))"
  proof (cases "model_loads env")
    case False
    then show ?thesis by (simp add: generate_def)
  next
    case True
    note sim = gen_loop_unparseable [OF assms, of count original_df init_state]
    show ?thesis
    proof (cases "gen_loop env count original_df (Some s) init_state")
      case (Inl e)
      then have "gen_loop env count original_df None init_state = Inl e"
        using sim by (simp add: quiet_init)
      then show ?thesis using Inl True by (simp add: generate_def)
    next
      case (Inr st)
      then have n: "gen_loop env count original_df None init_state = Inr (quiet st)"
        using sim by (simp add: quiet_init)
      note g1 = generate_after_loop [OF True Inr]
      note g2 = generate_after_loop [OF True n]
      have a: "outcome ?g = outcome ?n" and b: "sample_calls ?g = sample_calls ?n"
        and c: "filter (\<lambda>e. e \<noteq> Warning_Parse_Failed) (final_log ?g) = final_log ?n"
        unfolding g1 g2 by (simp_all add: quiet_fields Let_def)
      have d: "count_list (final_log ?g) Warning_Parse_Failed
          + count_list (final_log ?g) Error_Sampling_Failed
          = length (sample_calls ?g)"
        if "s \<noteq> []"
        using gen_loop_warns [OF assms that Inr] unfolding g1
        by (simp add: Let_def init_state_def)
      from a b c d show ?thesis by blast
    qed
  qed
  from abcd e show ?thesis by blast
qed


theorem unparseable_configuration_disables_injection_witness:
  "json_loads env_distinct ''{'' = None \<and> model_loads env_distinct
   \<and> generate env_distinct 2 None (Some ''{'')
       = \<lparr>outcome = Saved [row_a, row_c],
          final_log = [Info_Pass 1 12, Warning_Parse_Failed, Info_Final 2],
          sample_calls = [12]\<rparr>
   \<and> outcome (generate env_distinct 2 None None) = Saved [row_a, row_c]
   \<and> sample_calls (generate env_distinct 2 None None) = [12]
   \<and> final_log (generate env_distinct 2 None None) = [Info_Pass 1 12, Info_Final 2]"
proof -
  have j: "json_loads env_distinct ''{'' = None" and m: "model_loads env_distinct"
    by (simp_all add: env_distinct_def)
  have g: "generate env_distinct 2 None (Some ''{'')
       = \<lparr>outcome = Saved [row_a, row_c],
          final_log = [Info_Pass 1 12, Warning_Parse_Failed, Info_Final 2],
          sample_calls = [12]\<rparr>"
    by code_simp
  show ?thesis
    using j m g unparseable_configuration_disables_injection [OF j, of 2 None]
    by simp
qed

text \<open>
  The claim as written has a warning recorded in every run whose configuration string
  cannot be parsed. The empty string cannot be parsed, and the run with it logs no
  warning (line 13 returns before \<^verbatim>\<open>json.loads\<close>); and a run with target zero never
  reaches \<^verbatim>\<open>load_anomalies\<close>, which is called inside the loop.
\<close>

theorem unparseable_configuration_no_warning_counterexample:
  "json_loads env_distinct [] = None
   \<and> final_log (generate env_distinct 1 None (Some [])) = [Info_Pass 1 11, Info_Final 1]
   \<and> json_loads env_distinct ''{'' = None
   \<and> final_log (generate env_distinct 0 None (Some ''{'')) = [Info_Final 0]"
proof -
  have "json_loads env_distinct [] = None" and "json_loads env_distinct ''{'' = None"
    by (simp_all add: env_distinct_def)
  moreover have "final_log (generate env_distinct 1 None (Some []))
      = [Info_Pass 1 11, Info_Final 1]"
    by code_simp
  moreover have "final_log (generate env_distinct 0 None (Some ''{'')) = [Info_Final 0]"
    by code_simp
  ultimately show ?thesis by simp
qed

section \<open>The leakage filter drops by the labels of the merged frame\<close>

text \<open>
  Claim C2 on the code. The labels in \<^verbatim>\<open>leaked_indices\<close> are positions in the merged
  frame, which has one row more than the batch for every additional original row that
  matches a candidate; \<^verbatim>\<open>samples.drop\<close> reads them as labels of the batch. With the
  original rows a, a, b and the batch a, c, b, d the merged frame is a, a, c, b, d with
  the marks at 0, 1 and 3: the rows a, c and d are dropped and the leaking row b is
  kept. With the batch a, b the marks are at 0, 1 and 2, and label 2 is not in the
  batch: KeyError.
\<close>

theorem leakage_filter_misses_and_overdrops:
  "leakage_filter (Some original_aab) xy [row_a, row_c, row_b, row_d 0]
     = Inr ([row_b], [Warning_Leaked 3])
   \<and> leaks original_aab xy row_a \<and> leaks original_aab xy row_b
   \<and> \<not> leaks original_aab xy row_c \<and> \<not> leaks original_aab xy (row_d 0)
   \<and> leakage_filter (Some original_aab) xy [row_a, row_b] = Inl KeyError"
proof -
  have "leakage_filter (Some original_aab) xy [row_a, row_c, row_b, row_d 0]
     = Inr ([row_b], [Warning_Leaked 3])"
    by code_simp
  moreover have "leakage_filter (Some original_aab) xy [row_a, row_b] = Inl KeyError"
    by code_simp
  moreover have "leaks original_aab xy row_a" and "leaks original_aab xy row_b"
    and "\<not> leaks original_aab xy row_c" and "\<not> leaks original_aab xy (row_d 0)"
    by code_simp+
  ultimately show ?thesis by simp
qed

text \<open>
  Claim C1 on the code. The same original dataset, one row asked for: the first batch
  is a, c, b and eight further rows, the filter drops the labels 0, 1 and 3, and the
  row written to the output is b, which agrees with an original row on both common
  columns.
\<close>

theorem generate_writes_original_row:
  "generate env_distinct 1 (Some original_aab) None
     = \<lparr>outcome = Saved [row_b],
        final_log = [Info_Pass 1 11, Warning_Leaked 3, Info_Final 1],
        sample_calls = [11]\<rparr>
   \<and> leaks original_aab (model_columns env_distinct) row_b
   \<and> \<not> frame_empty original_aab
   \<and> common_cols (columns original_aab) (model_columns env_distinct) = xy"
proof -
  have "generate env_distinct 1 (Some original_aab) None
     = \<lparr>outcome = Saved [row_b],
        final_log = [Info_Pass 1 11, Warning_Leaked 3, Info_Final 1],
        sample_calls = [11]\<rparr>"
    by code_simp
  moreover have "leaks original_aab (model_columns env_distinct) row_b" by code_simp
  moreover have "\<not> frame_empty original_aab
      \<and> common_cols (columns original_aab) (model_columns env_distinct) = xy"
    by (simp add: original_aab_def frame_empty_def common_cols_def env_distinct_def xy_def)
  ultimately show ?thesis by simp
qed

end
